theory Spec2Isabelle
  imports Complex_Main "HOL-Library.Word"
begin

section \<open>Numbers, strings and bytes\<close>

text \<open>
  The component \<^verbatim>\<open>GalaxyScene\<close> keeps its audio scheduling and caption state in a handful of
  mutable variables that are changed by four kinds of callbacks: \<^verbatim>\<open>onmessage\<close> (one inbound
  server message), the \<^verbatim>\<open>ended\<close> listener of an audio source, \<^verbatim>\<open>render\<close> (one animation
  frame) and the callback of the caption-clear timer. Each callback is one function from
  state to state here.

  JavaScript numbers that hold times and volumes are modelled as \<^typ>\<open>real\<close>: rounding of
  IEEE doubles is outside the model. Counts and indices are \<^typ>\<open>nat\<close> and \<^typ>\<open>int\<close>.
  JavaScript strings are modelled as \<^typ>\<open>string\<close>, that is, as lists of code units below
  256; this covers every binary string built from bytes and every base64 text.
\<close>

type_synonym byte = "8 word"

datatype error = InvalidCharacterError | RangeError | NotSupportedError | TypeError

subsection \<open>The platform functions \<^verbatim>\<open>btoa\<close> and \<^verbatim>\<open>atob\<close>\<close>

text \<open>
  \<^verbatim>\<open>btoa\<close> and \<^verbatim>\<open>atob\<close> are functions of the browser, not of the repository. They are
  modelled after the WHATWG definition: \<^verbatim>\<open>btoa\<close> is base64 encoding with padding,
  \<^verbatim>\<open>atob\<close> is the forgiving base64 decoder (ASCII whitespace is removed, up to two padding
  characters are dropped when the length is a multiple of four, a length of one modulo four
  or a character outside the alphabet is an \<^verbatim>\<open>InvalidCharacterError\<close>, and leftover bits
  of the last group are discarded).
\<close>

definition b64alphabet :: string where
  "b64alphabet = ''ABCDEFGHIJKLMNOPQRSTUVWXYZabcdefghijklmnopqrstuvwxyz0123456789+/''"

definition b64char :: "nat \<Rightarrow> char" where
  "b64char n = b64alphabet ! n"

fun indexOf :: "char \<Rightarrow> string \<Rightarrow> nat option" where
  "indexOf c [] = None"
| "indexOf c (x # xs) = (if c = x then Some 0 else map_option Suc (indexOf c xs))"

definition b64val :: "char \<Rightarrow> nat option" where
  "b64val c = indexOf c b64alphabet"

fun sextets :: "nat list \<Rightarrow> nat list" where
  "sextets (a # b # c # rest) =
     [a div 4, (a mod 4) * 16 + b div 16, (b mod 16) * 4 + c div 64, c mod 64] @ sextets rest"
| "sextets [a, b] = [a div 4, (a mod 4) * 16 + b div 16, (b mod 16) * 4]"
| "sextets [a] = [a div 4, (a mod 4) * 16]"
| "sextets [] = []"

definition btoa :: "string \<Rightarrow> string" where
  "btoa s = map b64char (sextets (map of_char s))
            @ replicate ((3 - length s mod 3) mod 3) (CHR ''='')"

definition asciiWhitespace :: "char \<Rightarrow> bool" where
  "asciiWhitespace c = (c \<in> set [CHR 0x09, CHR 0x0A, CHR 0x0C, CHR 0x0D, CHR '' ''])"

definition stripPadding :: "string \<Rightarrow> string" where
  "stripPadding d =
     (if length d mod 4 = 0 \<and> d \<noteq> [] \<and> last d = CHR ''='' then
        (if butlast d \<noteq> [] \<and> last (butlast d) = CHR ''='' then butlast (butlast d)
         else butlast d)
      else d)"

fun octets :: "nat list \<Rightarrow> nat list" where
  "octets (w # x # y # z # rest) =
     [w * 4 + x div 16, (x mod 16) * 16 + y div 4, (y mod 4) * 64 + z] @ octets rest"
| "octets [w, x, y] = [w * 4 + x div 16, (x mod 16) * 16 + y div 4]"
| "octets [w, x] = [w * 4 + x div 16]"
| "octets [w] = []"
| "octets [] = []"

definition atob :: "string \<Rightarrow> error + string" where
  "atob data =
     (let d = stripPadding (filter (\<lambda>c. \<not> asciiWhitespace c) data) in
      if length d mod 4 = 1 then Inl InvalidCharacterError
      else (case those (map b64val d) of
              None \<Rightarrow> Inl InvalidCharacterError
            | Some vs \<Rightarrow> Inr (map char_of (octets vs))))"

subsection \<open>The helpers \<^verbatim>\<open>decode\<close> and \<^verbatim>\<open>encode\<close>\<close>

text \<open>
  \<^verbatim>\<open>decode\<close> fills a \<^verbatim>\<open>Uint8Array\<close> with the character codes of \<^verbatim>\<open>atob(base64)\<close>; an
  exception of \<^verbatim>\<open>atob\<close> leaves the function as the error.
\<close>

definition decode :: "string \<Rightarrow> error + byte list" where
  "decode base64 =
     (case atob base64 of
        Inl e \<Rightarrow> Inl e
      | Inr binaryString \<Rightarrow> Inr (map (\<lambda>ch. of_nat (of_char ch)) binaryString))"

text \<open>
  \<^verbatim>\<open>encode\<close> walks the bytes in chunks of 8192, appending
  \<^verbatim>\<open>String.fromCharCode.apply(null, chunk)\<close> to \<^verbatim>\<open>binary\<close>, and returns \<^verbatim>\<open>btoa(binary)\<close>.
\<close>

definition chunkSize :: nat where
  "chunkSize = 8192"

definition subarray :: "byte list \<Rightarrow> nat \<Rightarrow> nat \<Rightarrow> byte list" where
  "subarray bytes b e = take (e - b) (drop b bytes)"

definition fromCharCode :: "byte list \<Rightarrow> string" where
  "fromCharCode chunk = map (\<lambda>b. char_of (unat b)) chunk"

function encodeLoop :: "byte list \<Rightarrow> nat \<Rightarrow> string \<Rightarrow> string" where
  "encodeLoop bytes i binary =
     (if i < length bytes
      then encodeLoop bytes (i + chunkSize) (binary @ fromCharCode (subarray bytes i (i + chunkSize)))
      else binary)"
  by pat_completeness auto
termination
  by (relation "measure (\<lambda>(bytes, i, binary). length bytes - i)") (auto simp: chunkSize_def)

declare encodeLoop.simps [simp del]

definition encode :: "byte list \<Rightarrow> string" where
  "encode bytes = btoa (encodeLoop bytes 0 [])"

subsection \<open>\<^verbatim>\<open>decodeAudioData\<close>\<close>

text \<open>
  The bytes are viewed as 16-bit little-endian signed samples (\<^verbatim>\<open>new Int16Array(data.buffer)\<close>
  throws a \<^verbatim>\<open>RangeError\<close> on an odd byte length), and \<^verbatim>\<open>createBuffer\<close> refuses a buffer of
  zero frames with a \<^verbatim>\<open>NotSupportedError\<close>. The only call site passes a sample rate of
  24000 and one channel, for which the division of the sample count by the number of
  channels is exact. The duration of an \<^verbatim>\<open>AudioBuffer\<close> is its frame count divided by
  its sample rate.
\<close>

record audioBuffer =
  numberOfChannels :: nat
  frameCount :: nat
  sampleRate :: real
  channelData :: "real list list"

definition duration :: "audioBuffer \<Rightarrow> real" where
  "duration buf = real (frameCount buf) / sampleRate buf"

fun int16Array :: "byte list \<Rightarrow> int list" where
  "int16Array (lo # hi # rest) =
     (let v = int (unat lo) + 256 * int (unat hi)
      in (if v \<ge> 32768 then v - 65536 else v)) # int16Array rest"
| "int16Array [b] = []"
| "int16Array [] = []"

definition decodeAudioData :: "byte list \<Rightarrow> real \<Rightarrow> nat \<Rightarrow> error + audioBuffer" where
  "decodeAudioData data rate numChannels =
     (if odd (length data) then Inl RangeError
      else
        (let dataInt16 = int16Array data;
             frames = length dataInt16 div numChannels
         in if frames = 0 then Inl NotSupportedError
            else Inr \<lparr> numberOfChannels = numChannels, frameCount = frames, sampleRate = rate,
                       channelData =
                         map (\<lambda>channel.
                                map (\<lambda>i. real_of_int (dataInt16 ! (i * numChannels + channel)) / 32768)
                                    [0..<frames])
                             [0..<numChannels] \<rparr>))"

section \<open>The state of the scene\<close>

text \<open>
  A playback handle is one \<^verbatim>\<open>AudioBufferSourceNode\<close>: its identity, the time passed to
  \<^verbatim>\<open>source.start\<close> and the duration of its buffer. \<^verbatim>\<open>sourcesRef.current\<close> is a JavaScript
  \<^verbatim>\<open>Set\<close>, which iterates in insertion order: a list without repetitions.
\<close>

record playbackHandle =
  hid :: nat
  startAt :: real
  bufferDuration :: real

record caption =
  captionWords :: "string list"
  activeIndex :: int

text \<open>
  The fields up to \<open>status\<close> are the variables of the source under their names. The rest
  records what the callbacks ask of the platform: \<open>timers\<close> are the pending
  \<^verbatim>\<open>setTimeout\<close> registrations (identifier and delay in milliseconds), \<open>timerCounter\<close> and
  \<open>nodeCounter\<close> give fresh identifiers, \<open>stopped\<close> lists the handles on which
  \<^verbatim>\<open>source.stop()\<close> was called and \<open>console\<close> the errors passed to \<^verbatim>\<open>console.error\<close>.
\<close>

record engine =
  turnWords :: "string list"
  turnStartTime :: real
  turnAudioDuration :: real
  nextStartTime :: real
  previousStateKey :: string
  kineticText :: caption
  sources :: "playbackHandle list"
  aiWasPlaying :: bool
  clearTextTimeout :: "nat option"
  uVolume :: real
  status :: string
  timers :: "(nat \<times> real) list"
  timerCounter :: nat
  nodeCounter :: nat
  stopped :: "nat list"
  console :: "error list"

definition emptyCaption :: caption where
  "emptyCaption = \<lparr> captionWords = [], activeIndex = - 1 \<rparr>"

definition initialEngine :: engine where
  "initialEngine =
     \<lparr> turnWords = [], turnStartTime = 0, turnAudioDuration = 0, nextStartTime = 0,
       previousStateKey = [], kineticText = emptyCaption, sources = [],
       aiWasPlaying = False, clearTextTimeout = None, uVolume = 0,
       status = ''Initializing WebGL...'', timers = [], timerCounter = 1, nodeCounter = 0,
       stopped = [], console = [] \<rparr>"

section \<open>\<^verbatim>\<open>onmessage\<close>: one inbound server message\<close>

text \<open>
  \<^verbatim>\<open>serverContent.outputTranscription\<close> is an object whose \<^verbatim>\<open>text\<close> property may be
  absent; \<^verbatim>\<open>inlineData\<close> is the base64 text of the first part of the model turn.
\<close>

datatype transcription = Transcription "string option"

record liveServerMessage =
  outputTranscription :: "transcription option"
  inlineData :: "string option"
  interrupted :: bool

subsection \<open>Transcript text\<close>

text \<open>
  \<^verbatim>\<open>text.trim().split(/\s+/).filter(w => w.length > 0)\<close>, with the white space of
  JavaScript among the code units below 256: tab, line feed, vertical tab, form feed,
  carriage return, space and the no-break space.
\<close>

definition whiteSpace :: "char \<Rightarrow> bool" where
  "whiteSpace c =
     (c \<in> set [CHR 0x09, CHR 0x0A, CHR 0x0B, CHR 0x0C, CHR 0x0D, CHR '' '', CHR 0xA0])"

definition trim :: "string \<Rightarrow> string" where
  "trim s = rev (dropWhile whiteSpace (rev (dropWhile whiteSpace s)))"

function splitWhiteSpace :: "string \<Rightarrow> string list" where
  "splitWhiteSpace s =
     (let token = takeWhile (\<lambda>c. \<not> whiteSpace c) s;
          rest = dropWhile (\<lambda>c. \<not> whiteSpace c) s
      in if rest = [] then [token] else token # splitWhiteSpace (dropWhile whiteSpace rest))"
  by pat_completeness auto
termination
proof (relation "measure length")
  show "wf (measure length)" by simp
next
  fix s :: string and token rest
  assume r: "rest = dropWhile (\<lambda>c. \<not> whiteSpace c) s" and ne: "rest \<noteq> []"
  from ne obtain c cs where rc: "rest = c # cs" by (cases rest) auto
  have "length (dropWhile whiteSpace rest) \<le> length rest"
    by (rule length_dropWhile_le)
  moreover have "dropWhile (\<lambda>c. \<not> whiteSpace c) s \<noteq> []"
    using ne r by blast
  from hd_dropWhile [OF this] have "whiteSpace c"
    using r rc by (metis list.sel(1))
  then have "length (dropWhile whiteSpace rest) < length rest"
    using rc length_dropWhile_le [of whiteSpace cs] by simp
  moreover have "length rest \<le> length s"
    unfolding r by (rule length_dropWhile_le)
  ultimately show "(dropWhile whiteSpace rest, s) \<in> measure length" by simp
qed

declare splitWhiteSpace.simps [simp del]

definition newWords :: "string \<Rightarrow> string list" where
  "newWords text = filter (\<lambda>w. length w > 0) (splitWhiteSpace text)"

text \<open>
  \<^verbatim>\<open>message.serverContent.outputTranscription.text.trim()\<close> stands outside the
  \<^verbatim>\<open>try\<close> block: on a transcription object without \<^verbatim>\<open>text\<close> it throws a
  \<^verbatim>\<open>TypeError\<close>, before anything was written, and the rest of the handler does not run.
\<close>

definition onTranscription :: "transcription option \<Rightarrow> engine \<Rightarrow> error + engine" where
  "onTranscription tr s =
     (case tr of
        None \<Rightarrow> Inr s
      | Some (Transcription None) \<Rightarrow> Inl TypeError
      | Some (Transcription (Some raw)) \<Rightarrow>
          (let text = trim raw in
           if text \<noteq> [] then
             Inr (s\<lparr> turnWords := turnWords s @ newWords text \<rparr>)
           else Inr s))"

definition hasText :: "transcription option \<Rightarrow> bool" where
  "hasText tr = (tr \<noteq> Some (Transcription None))"

subsection \<open>Audio\<close>

text \<open>
  The body of the \<^verbatim>\<open>try\<close> block after a successful decode, in two parts. \<open>now\<close> is
  \<^verbatim>\<open>outputAudioContext.currentTime\<close>, read once for the message.
\<close>

definition needsResync :: "real \<Rightarrow> engine \<Rightarrow> bool" where
  "needsResync now s = (nextStartTime s = 0 \<or> nextStartTime s < now)"

definition resynchronize :: "real \<Rightarrow> engine \<Rightarrow> engine" where
  "resynchronize now s =
     (if needsResync now s then
        (if turnAudioDuration s = 0 then s\<lparr> turnStartTime := now, nextStartTime := now \<rparr>
         else
           (let gap = now - nextStartTime s;
                s1 = (if gap > 0 then s\<lparr> turnStartTime := turnStartTime s + gap \<rparr> else s)
            in s1\<lparr> nextStartTime := now \<rparr>))
      else s)"

definition startSource :: "audioBuffer \<Rightarrow> engine \<Rightarrow> engine" where
  "startSource buf s =
     (let source = \<lparr> hid = nodeCounter s, startAt = nextStartTime s,
                      bufferDuration = duration buf \<rparr>
      in s\<lparr> nextStartTime := nextStartTime s + duration buf,
            sources := sources s @ [source],
            turnAudioDuration := turnAudioDuration s + duration buf,
            nodeCounter := Suc (nodeCounter s) \<rparr>)"

definition scheduleBuffer :: "real \<Rightarrow> audioBuffer \<Rightarrow> engine \<Rightarrow> engine" where
  "scheduleBuffer now buf s = startSource buf (resynchronize now s)"

definition decodePayload :: "string \<Rightarrow> error + audioBuffer" where
  "decodePayload base64Audio =
     (case decode base64Audio of
        Inl e \<Rightarrow> Inl e
      | Inr bytes \<Rightarrow> decodeAudioData bytes 24000 1)"

definition onAudio :: "real \<Rightarrow> string option \<Rightarrow> engine \<Rightarrow> engine" where
  "onAudio now payload s =
     (case payload of
        None \<Rightarrow> s
      | Some base64Audio \<Rightarrow>
          (if base64Audio = [] then s
           else (case decodePayload base64Audio of
                   Inl e \<Rightarrow> s\<lparr> console := console s @ [e] \<rparr>
                 | Inr audioBuffer \<Rightarrow> scheduleBuffer now audioBuffer s)))"

subsection \<open>Interruption\<close>

text \<open>
  The loop \<^verbatim>\<open>for (const source of sourcesRef.current.values())\<close> stops and deletes the
  element it is at; deleting the current element of a \<^verbatim>\<open>Set\<close> does not make its iterator
  skip another one.
\<close>

fun stopAll :: "playbackHandle list \<Rightarrow> engine \<Rightarrow> engine" where
  "stopAll [] s = s"
| "stopAll (source # rest) s =
     stopAll rest (s\<lparr> stopped := stopped s @ [hid source],
                      sources := removeAll source (sources s) \<rparr>)"

definition onInterrupted :: "engine \<Rightarrow> engine" where
  "onInterrupted s =
     (let s1 = s\<lparr> turnWords := [], turnAudioDuration := 0, turnStartTime := 0,
                  previousStateKey := [], kineticText := emptyCaption \<rparr>;
          s2 = stopAll (sources s1) s1
      in s2\<lparr> nextStartTime := 0 \<rparr>)"

text \<open>
  The handler: the transcription, then the audio, then the interruption. Its result is the
  error when it throws, and the state it leaves otherwise.
\<close>

definition onmessage :: "real \<Rightarrow> liveServerMessage \<Rightarrow> engine \<Rightarrow> error + engine" where
  "onmessage now message s =
     (case onTranscription (outputTranscription message) s of
        Inl e \<Rightarrow> Inl e
      | Inr s1 \<Rightarrow>
          (let s2 = onAudio now (inlineData message) s1
           in Inr (if interrupted message then onInterrupted s2 else s2)))"

text \<open>The \<^verbatim>\<open>ended\<close> listener of a source removes it from the set.\<close>

definition onEnded :: "playbackHandle \<Rightarrow> engine \<Rightarrow> engine" where
  "onEnded source s = s\<lparr> sources := removeAll source (sources s) \<rparr>"

section \<open>\<^verbatim>\<open>render\<close>: one animation frame\<close>

text \<open>
  What one frame reads from the platform: \<^verbatim>\<open>clock.getDelta()\<close>, the analyser's byte
  frequency data (absent until the analyser exists) and the time of the output audio
  context (absent until the context exists).
\<close>

record frame =
  clockDelta :: real
  spectrum :: "byte list option"
  outputTime :: "real option"

subsection \<open>Volume\<close>

definition noiseGate :: real where
  "noiseGate = 3"

definition maxVol :: real where
  "maxVol = 60"

definition currentVolume :: "byte list option \<Rightarrow> real" where
  "currentVolume analyserData =
     (case analyserData of
        None \<Rightarrow> 0
      | Some dataArray \<Rightarrow>
          (let sum = foldl (\<lambda>acc b. acc + real (unat b)) 0 dataArray;
               avgVolume = sum / real (length dataArray)
           in if avgVolume > noiseGate
              then min 1 (max 0 ((avgVolume - noiseGate) / (maxVol - noiseGate)))
              else 0))"

definition smoothVolume :: "real \<Rightarrow> real \<Rightarrow> real \<Rightarrow> real" where
  "smoothVolume volume current delta =
     (let lerpSpeed = (if current > volume then 16 else 4)
      in volume + (current - volume) * lerpSpeed * delta)"

definition updateVolume :: "frame \<Rightarrow> engine \<Rightarrow> engine" where
  "updateVolume f s =
     (let delta = min (clockDelta f) (1 / 10)
      in s\<lparr> uVolume := smoothVolume (uVolume s) (currentVolume (spectrum f)) delta \<rparr>)"

subsection \<open>Captions\<close>

definition CHUNK_SIZE :: nat where
  "CHUNK_SIZE = 5"

fun showNat :: "nat \<Rightarrow> string" where
  "showNat n =
     (if n < 10 then [''0123456789'' ! n]
      else showNat (n div 10) @ [''0123456789'' ! (n mod 10)])"

declare showNat.simps [simp del]

definition stateKeyOf :: "nat \<Rightarrow> nat \<Rightarrow> string" where
  "stateKeyOf chunkIndex indexInChunk = showNat chunkIndex @ ''-'' @ showNat indexInChunk"

text \<open>
  Both branches of \<^verbatim>\<open>render\<close> that set the caption do it the same way from an absolute word
  index: the chunk of five words the index lies in, the index within the chunk, and no
  update when the key of the pair is the one emitted last.
\<close>

definition chunkIndexOf :: "nat \<Rightarrow> nat" where
  "chunkIndexOf wordAbsolute = wordAbsolute div CHUNK_SIZE"

definition indexInChunkOf :: "nat \<Rightarrow> nat" where
  "indexInChunkOf wordAbsolute = wordAbsolute mod CHUNK_SIZE"

definition showWord :: "nat \<Rightarrow> engine \<Rightarrow> engine" where
  "showWord wordAbsolute s =
     (let chunkIndex = chunkIndexOf wordAbsolute;
          indexInChunk = indexInChunkOf wordAbsolute;
          chunkWords = take CHUNK_SIZE (drop (chunkIndex * CHUNK_SIZE) (turnWords s));
          stateKey = stateKeyOf chunkIndex indexInChunk
      in if stateKey \<noteq> previousStateKey s
         then s\<lparr> previousStateKey := stateKey,
                 kineticText := \<lparr> captionWords = chunkWords, activeIndex = int indexInChunk \<rparr> \<rparr>
         else s)"

definition clampElapsed :: "real \<Rightarrow> real \<Rightarrow> real" where
  "clampElapsed elapsed audioDuration = max 0 (min elapsed audioDuration)"

definition smoothedWps :: "nat \<Rightarrow> real \<Rightarrow> real" where
  "smoothedWps wordCount audioDuration =
     (let rawWps = real wordCount / max (1 / 10) audioDuration
      in min (max rawWps 2) 6)"

definition activeWordAbsolute :: "nat \<Rightarrow> real \<Rightarrow> real \<Rightarrow> int" where
  "activeWordAbsolute wordCount audioDuration elapsed =
     min \<lfloor>clampElapsed elapsed audioDuration * smoothedWps wordCount audioDuration\<rfloor>
         (int wordCount - 1)"

definition captionTick :: "real option \<Rightarrow> engine \<Rightarrow> engine" where
  "captionTick ctxTime s =
     (case ctxTime of
        None \<Rightarrow> s
      | Some currentTime \<Rightarrow>
          (if turnAudioDuration s > 0 \<and> length (turnWords s) > 0 then
             (let a = activeWordAbsolute (length (turnWords s)) (turnAudioDuration s)
                        (currentTime - turnStartTime s)
              in if a \<ge> 0 then showWord (nat a) s else s)
           else s))"

subsection \<open>The caption-clear timer\<close>

definition clearTimeout :: "nat \<Rightarrow> engine \<Rightarrow> engine" where
  "clearTimeout t s = s\<lparr> timers := filter (\<lambda>(i, d). i \<noteq> t) (timers s) \<rparr>"

definition cancelClearTimer :: "engine \<Rightarrow> engine" where
  "cancelClearTimer s =
     (case clearTextTimeout s of
        None \<Rightarrow> s
      | Some t \<Rightarrow> (if t \<noteq> 0 then (clearTimeout t s)\<lparr> clearTextTimeout := None \<rparr> else s))"

definition scheduleClearTimer :: "engine \<Rightarrow> engine" where
  "scheduleClearTimer s =
     s\<lparr> timers := timers s @ [(timerCounter s, 3500)],
        clearTextTimeout := Some (timerCounter s),
        timerCounter := Suc (timerCounter s) \<rparr>"

definition clearTurn :: "engine \<Rightarrow> engine" where
  "clearTurn s =
     s\<lparr> turnWords := [], turnAudioDuration := 0, turnStartTime := 0,
        previousStateKey := [], kineticText := emptyCaption \<rparr>"

text \<open>
  The timer callback, when the platform fires timer \<open>t\<close>: a timer that is not pending
  (cancelled, or fired before) does nothing.
\<close>

definition onClearTimeout :: "nat \<Rightarrow> engine \<Rightarrow> engine" where
  "onClearTimeout t s =
     (if t \<in> set (map fst (timers s)) then
        (let s1 = clearTimeout t s
         in if sources s1 = [] then clearTurn s1 else s1)
      else s)"

subsection \<open>The frame\<close>

text \<open>
  \<^verbatim>\<open>render\<close> is created once, in an effect without dependencies, so the \<^verbatim>\<open>status\<close> it
  reads in its last branch is the one of the first rendering of the component.
\<close>

definition capturedStatus :: string where
  "capturedStatus = ''Initializing WebGL...''"

fun stringIncludes :: "string \<Rightarrow> string \<Rightarrow> bool" where
  "stringIncludes [] sub = (sub = [])"
| "stringIncludes (c # cs) sub = (take (length sub) (c # cs) = sub \<or> stringIncludes cs sub)"

definition render :: "frame \<Rightarrow> engine \<Rightarrow> engine" where
  "render f s =
     (let s0 = updateVolume f s;
          isPlaying = (sources s0 \<noteq> [])
      in if isPlaying then
           (let s1 = captionTick (outputTime f) s0
            in if \<not> aiWasPlaying s1
               then cancelClearTimer (s1\<lparr> aiWasPlaying := True, status := ''AI is speaking...'' \<rparr>)
               else s1)
         else if aiWasPlaying s0 then
           (let s1 = s0\<lparr> aiWasPlaying := False, status := ''Listening...'' \<rparr>;
                s2 = (if length (turnWords s1) > 0
                      then showWord (length (turnWords s1) - 1) s1 else s1)
            in scheduleClearTimer s2)
         else if capturedStatus \<noteq> ''Listening...'' \<and> stringIncludes capturedStatus ''Connected''
           then s0\<lparr> status := ''Listening...'' \<rparr>
         else s0)"

section \<open>Runs\<close>

text \<open>
  The callbacks run one at a time, each to its end: the continuation after the
  \<^verbatim>\<open>await\<close> in \<^verbatim>\<open>onmessage\<close> is a microtask, and frames, timers and \<^verbatim>\<open>ended\<close> events are
  tasks of their own. A run is a list of such events. A handler that throws rejects its
  promise and leaves the variables as they are; the only throw outside a \<^verbatim>\<open>try\<close> comes
  before the first write.
\<close>

datatype event =
    Message real liveServerMessage
  | Ended playbackHandle
  | Frame frame
  | ClearTimeout nat

fun step :: "event \<Rightarrow> engine \<Rightarrow> engine" where
  "step (Message now m) s = (case onmessage now m s of Inl e \<Rightarrow> s | Inr s' \<Rightarrow> s')"
| "step (Ended source) s = onEnded source s"
| "step (Frame f) s = render f s"
| "step (ClearTimeout t) s = onClearTimeout t s"

definition run :: "event list \<Rightarrow> engine \<Rightarrow> engine" where
  "run es s = foldl (\<lambda>st e. step e st) s es"

section \<open>Sequences of audio deltas, and inputs for the examples\<close>

text \<open>
  A successfully decoded audio delta is the time of the output clock at which it is
  handled and the decoded buffer. \<open>scheduleAll\<close> handles a sequence of them;
  \<open>noStarvation\<close> says that none of them finds the guard of the resynchronization
  true.
\<close>

fun scheduleAll :: "(real \<times> audioBuffer) list \<Rightarrow> engine \<Rightarrow> engine" where
  "scheduleAll [] s = s"
| "scheduleAll ((now, buf) # rest) s = scheduleAll rest (scheduleBuffer now buf s)"

fun noStarvation :: "(real \<times> audioBuffer) list \<Rightarrow> engine \<Rightarrow> bool" where
  "noStarvation [] s = True"
| "noStarvation ((now, buf) # rest) s =
     (\<not> needsResync now s \<and> noStarvation rest (scheduleBuffer now buf s))"

text \<open>
  \<open>chained t hs\<close>: the first handle of \<open>hs\<close> starts at \<open>t\<close> and each further one
  where the one before it ends.
\<close>

fun chained :: "real \<Rightarrow> playbackHandle list \<Rightarrow> bool" where
  "chained t [] = True"
| "chained t (h # hs) = (startAt h = t \<and> chained (t + bufferDuration h) hs)"

text \<open>
  A payload of \<open>8 * k\<close> letters \<^verbatim>\<open>A\<close> is the base64 text of \<open>6 * k\<close> zero bytes: \<open>3 * k\<close>
  frames of silence, \<open>k / 8000\<close> seconds at 24 kHz.
\<close>

definition zeroPayload :: "nat \<Rightarrow> string" where
  "zeroPayload k = replicate (8 * k) (CHR ''A'')"

definition silence :: "nat \<Rightarrow> audioBuffer" where
  "silence n = \<lparr> numberOfChannels = 1, frameCount = n, sampleRate = 24000,
                 channelData = [replicate n 0] \<rparr>"

definition textMessage :: "string \<Rightarrow> liveServerMessage" where
  "textMessage t = \<lparr> outputTranscription = Some (Transcription (Some t)), inlineData = None,
                      interrupted = False \<rparr>"

definition audioMessage :: "string \<Rightarrow> liveServerMessage" where
  "audioMessage p = \<lparr> outputTranscription = None, inlineData = Some p, interrupted = False \<rparr>"


definition atTime :: "real \<Rightarrow> frame" where
  "atTime t = \<lparr> clockDelta = 1 / 60, spectrum = None, outputTime = Some t \<rparr>"

text \<open>The runs of the examples below.\<close>

definition captionScenario :: engine where
  "captionScenario =
     run [Message 10 (textMessage ''hello''), Message 10 (textMessage ''world this''),
          Message 10 (textMessage ''is a test''), Message 10 (audioMessage (zeroPayload 24000))]
         initialEngine"

definition pacingTick1 :: engine where
  "pacingTick1 =
     run [Message 1 (textMessage ''a b c d e f g h i j k l''),
          Message 1 (audioMessage (zeroPayload 16000)),
          Frame (atTime (29 / 10))]
         initialEngine"

definition pacingTick2 :: engine where
  "pacingTick2 =
     run [Message (59 / 20) (audioMessage (zeroPayload 80000)), Frame (atTime 3)] pacingTick1"

definition loudFrame :: frame where
  "loudFrame = \<lparr> clockDelta = 1 / 10, spectrum = Some (replicate 256 60), outputTime = None \<rparr>"








section \<open>Base64 round trip\<close>

lemma encodeLoop_eq: "encodeLoop bytes i binary = binary @ fromCharCode (drop i bytes)"
proof (induction bytes i binary rule: encodeLoop.induct)
  case (1 bytes i binary)
  show ?case
  proof (cases "i < length bytes")
    case True
    have "take chunkSize (drop i bytes) @ drop (i + chunkSize) bytes = drop i bytes"
      by (metis add.commute append_take_drop_id drop_drop)
    then have "fromCharCode (subarray bytes i (i + chunkSize)) @ fromCharCode (drop (i + chunkSize) bytes)
        = fromCharCode (drop i bytes)"
      by (simp add: fromCharCode_def subarray_def flip: map_append)
    with 1 [OF True] True show ?thesis
      by (subst encodeLoop.simps) simp
  next
    case False
    then show ?thesis
      by (subst encodeLoop.simps) (simp add: fromCharCode_def)
  qed
qed

lemma indexOf_nth: "distinct xs \<Longrightarrow> n < length xs \<Longrightarrow> indexOf (xs ! n) xs = Some n"
proof (induction xs arbitrary: n)
  case Nil
  then show ?case by simp
next
  case (Cons x xs)
  show ?case
  proof (cases n)
    case 0
    then show ?thesis by simp
  next
    case (Suc k)
    with Cons.prems have "xs ! k \<noteq> x" by auto
    with Cons Suc show ?thesis by simp
  qed
qed

lemma b64alphabet_length: "length b64alphabet = 64"
  by (simp add: b64alphabet_def)

lemma b64alphabet_distinct: "distinct b64alphabet"
  by (simp add: b64alphabet_def)

lemma b64val_b64char: "n < 64 \<Longrightarrow> b64val (b64char n) = Some n"
  by (simp add: b64val_def b64char_def indexOf_nth b64alphabet_distinct b64alphabet_length)

lemma b64char_in_alphabet: "n < 64 \<Longrightarrow> b64char n \<in> set b64alphabet"
  by (simp add: b64char_def b64alphabet_length)

lemma b64char_plain: "n < 64 \<Longrightarrow> b64char n \<noteq> CHR ''='' \<and> \<not> asciiWhitespace (b64char n)"
proof -
  assume "n < 64"
  then have "b64char n \<in> set b64alphabet" by (rule b64char_in_alphabet)
  moreover have "CHR ''='' \<notin> set b64alphabet" by (simp add: b64alphabet_def)
  moreover have "\<forall>c \<in> set b64alphabet. \<not> asciiWhitespace c"
    by (simp add: b64alphabet_def asciiWhitespace_def)
  ultimately show ?thesis by auto
qed

lemma sextet_first: "a < 256 \<Longrightarrow> a div 4 < (64::nat)" by simp

lemma sextet_second: "b < 256 \<Longrightarrow> a mod 4 * 16 + b div 16 < (64::nat)"
proof -
  assume "b < 256"
  then have "b div 16 < 16" by simp
  moreover have "a mod 4 < 4" by simp
  ultimately show ?thesis by linarith
qed

lemma sextet_third: "c < 256 \<Longrightarrow> b mod 16 * 4 + c div 64 < (64::nat)"
proof -
  assume "c < 256"
  then have "c div 64 < 4" by simp
  moreover have "b mod 16 < 16" by simp
  ultimately show ?thesis by linarith
qed

lemma sextet_rest: "b mod 16 * 4 < (64::nat)" "a mod 4 * 16 < (64::nat)" "c mod 64 < (64::nat)"
  by simp_all

lemma sextets_bound: "\<forall>x \<in> set xs. x < 256 \<Longrightarrow> \<forall>v \<in> set (sextets xs). v < 64"
proof (induction xs rule: sextets.induct)
  case (1 a b c rest)
  then have "a < 256" "b < 256" "c < 256" and IH: "\<forall>v \<in> set (sextets rest). v < 64"
    by simp_all
  then show ?case by (simp add: sextet_first sextet_second sextet_third sextet_rest)
next
  case (2 a b)
  then have "a < 256" "b < 256" by simp_all
  then show ?case by (simp add: sextet_first sextet_second sextet_rest)
next
  case (3 a)
  then have "a < 256" by simp
  then show ?case by (simp add: sextet_first sextet_rest)
qed simp

lemma sextets_length:
  "length (sextets xs) = 4 * (length xs div 3) + (if length xs mod 3 = 0 then 0 else length xs mod 3 + 1)"
  by (induction xs rule: sextets.induct) simp_all

lemma octets_sextets: "\<forall>x \<in> set xs. x < 256 \<Longrightarrow> octets (sextets xs) = xs"
proof (induction xs rule: sextets.induct)
  case (1 a b c rest)
  then have "b < 256" "c < 256" and IH: "octets (sextets rest) = rest"
    by simp_all
  then have "b div 16 < 16" "c div 64 < 4" by simp_all
  with IH show ?case by simp
next
  case (2 a b)
  then have "b < 256" by simp
  then have "b div 16 < 16" by simp
  then show ?case by simp
qed simp_all

lemma those_map_Some: "\<forall>x \<in> set xs. f (g x) = Some x \<Longrightarrow> those (map f (map g xs)) = Some xs"
  by (induction xs) simp_all

lemma of_char_bound: "\<forall>x \<in> set (map of_char s). x < (256::nat)"
proof
  fix x :: nat assume "x \<in> set (map of_char s)"
  then obtain c where "x = of_char c" by auto
  moreover have "(of_char c :: nat) mod 256 < 256" by simp
  ultimately show "x < 256" by simp
qed

lemma stripPadding_btoa:
  assumes "\<forall>v \<in> set vs. v < 64"
      and "(length vs + p) mod 4 = 0" and "p \<le> 2"
  shows "stripPadding (map b64char vs @ replicate p (CHR ''='')) = map b64char vs"
proof -
  let ?cs = "map b64char vs"
  have lastv: "?cs \<noteq> [] \<Longrightarrow> last ?cs \<noteq> CHR ''=''"
  proof -
    assume ne: "?cs \<noteq> []"
    then have "last ?cs \<in> set ?cs" by (rule last_in_set)
    then obtain v where "v \<in> set vs" "last ?cs = b64char v" by auto
    with assms(1) b64char_plain [of v] show ?thesis by simp
  qed
  consider "p = 0" | "p = 1" | "p = 2" using assms(3) by linarith
  then show ?thesis
  proof cases
    case 1
    with lastv show ?thesis by (auto simp: stripPadding_def)
  next
    case 2
    then have r: "replicate p (CHR ''='') = [CHR ''='']" by simp
    from assms(2) 2 have l: "length (?cs @ [CHR ''='']) mod 4 = 0" by simp
    show ?thesis
      unfolding r stripPadding_def using l lastv by auto
  next
    case 3
    then have r: "replicate p (CHR ''='') = [CHR ''='', CHR ''='']"
      by (simp add: numeral_2_eq_2)
    from assms(2) 3 have l: "length (?cs @ [CHR ''='', CHR ''='']) mod 4 = 0" by simp
    have b: "butlast (?cs @ [CHR ''='', CHR ''='']) = ?cs @ [CHR ''='']"
      by (simp add: butlast_append)
    show ?thesis
      unfolding r stripPadding_def b using l by simp
  qed
qed

lemma sextets_padding:
  "(length (sextets xs) + (3 - length xs mod 3) mod 3) mod 4 = 0
 \<and> length (sextets xs) mod 4 \<noteq> 1"
proof -
  define k where "k = length xs div 3"
  have m4: "(4 * k) mod 4 = 0" "(4 * k + 2 + 2) mod 4 = 0" "(4 * k + 3 + 1) mod 4 = 0"
    "(4 * k + 2) mod 4 = 2" "(4 * k + 3) mod 4 = 3"
    by presburger+
  consider "length xs mod 3 = 0" | "length xs mod 3 = 1" | "length xs mod 3 = 2" by linarith
  then show ?thesis
  proof cases
    case 1
    then have "length (sextets xs) = 4 * k" by (simp add: sextets_length k_def)
    with 1 m4 show ?thesis by simp
  next
    case 2
    then have "length (sextets xs) = 4 * k + 2" by (simp add: sextets_length k_def)
    moreover from 2 have "(3 - length xs mod 3) mod 3 = 2" by simp
    ultimately show ?thesis using m4 by simp
  next
    case 3
    then have "length (sextets xs) = 4 * k + 3" by (simp add: sextets_length k_def)
    moreover from 3 have "(3 - length xs mod 3) mod 3 = 1" by simp
    ultimately show ?thesis using m4 by simp
  qed
qed

lemma atob_btoa: "atob (btoa s) = Inr s"
proof -
  let ?vs = "sextets (map of_char s)"
  let ?p = "(3 - length s mod 3) mod 3"
  have small: "\<forall>v \<in> set ?vs. v < 64"
    by (rule sextets_bound [OF of_char_bound])
  have plain: "\<forall>c \<in> set (map b64char ?vs). \<not> asciiWhitespace c"
    using small b64char_plain by auto
  have "\<not> asciiWhitespace (CHR ''='')" by (simp add: asciiWhitespace_def)
  with plain have filt: "filter (\<lambda>c. \<not> asciiWhitespace c) (btoa s) = btoa s"
    by (simp add: btoa_def)
  have len: "(length ?vs + ?p) mod 4 = 0" and len1: "length ?vs mod 4 \<noteq> 1"
    using sextets_padding [of "map of_char s"] by simp_all
  have p2: "?p \<le> 2" by linarith
  have strip: "stripPadding (btoa s) = map b64char ?vs"
    unfolding btoa_def by (rule stripPadding_btoa [OF small len p2])
  have vals: "those (map b64val (map b64char ?vs)) = Some ?vs"
    by (rule those_map_Some) (use small b64val_b64char in auto)
  have "map char_of (octets ?vs) = s"
    by (simp add: octets_sextets [OF of_char_bound] comp_def)
  with len1 vals show ?thesis
    by (simp add: atob_def filt strip)
qed

text \<open>
  Claim C10. Decoding the encoding of any byte array gives the byte array back, whatever
  its length is relative to the chunk size of 8192.
\<close>

theorem decode_encode: "decode (encode bytes) = Inr bytes"
proof -
  have "encodeLoop bytes 0 [] = fromCharCode bytes"
    by (simp add: encodeLoop_eq)
  moreover have "map (\<lambda>ch. of_nat (of_char ch)) (fromCharCode bytes) = bytes"
  proof -
    have "(of_nat (of_char (char_of (unat b)) :: nat) :: byte) = b" for b :: byte
    proof -
      have "unat b < 256" using unsigned_less [of b] by simp
      then show ?thesis by simp
    qed
    then show ?thesis by (simp add: fromCharCode_def comp_def)
  qed
  ultimately show ?thesis
    by (simp add: decode_def encode_def atob_btoa)
qed

section \<open>Payloads of silence\<close>

lemma those_replicate: "those (replicate n (Some x)) = Some (replicate n x)"
  by (induction n) simp_all

lemma octets_zero: "octets (replicate (4 * j) 0) = replicate (3 * j) 0"
proof (induction j)
  case 0
  show ?case by simp
next
  case (Suc j)
  have "replicate (4 * Suc j) (0::nat) = 0 # 0 # 0 # 0 # replicate (4 * j) 0"
    by (simp add: numeral_eq_Suc)
  moreover have "replicate (3 * Suc j) (0::nat) = 0 # 0 # 0 # replicate (3 * j) 0"
    by (simp add: numeral_eq_Suc)
  ultimately show ?case using Suc by simp
qed

lemma int16Array_zero: "int16Array (replicate (2 * j) 0) = replicate j 0"
proof (induction j)
  case 0
  show ?case by simp
next
  case (Suc j)
  have "replicate (2 * Suc j) (0::byte) = 0 # 0 # replicate (2 * j) 0"
    by simp
  with Suc show ?case by simp
qed

lemma atob_zeroPayload: "atob (zeroPayload k) = Inr (replicate (6 * k) (char_of (0::nat)))"
proof -
  let ?d = "replicate (8 * k) (CHR ''A'')"
  have f: "filter (\<lambda>c. \<not> asciiWhitespace c) ?d = ?d"
    by (simp add: asciiWhitespace_def)
  have s: "stripPadding ?d = ?d"
  proof (cases "k = 0")
    case True
    then show ?thesis by (simp add: stripPadding_def)
  next
    case False
    then have "last ?d = CHR ''A''" by (simp add: last_replicate)
    then show ?thesis by (simp add: stripPadding_def)
  qed
  have l: "length ?d mod 4 \<noteq> 1"
  proof -
    have "(8 * k) mod 4 = 0" by presburger
    then show ?thesis by simp
  qed
  have v: "b64val (CHR ''A'') = Some 0"
    by (simp add: b64val_def b64alphabet_def)
  have t: "those (map b64val ?d) = Some (replicate (8 * k) 0)"
    by (simp add: v those_replicate)
  have o: "octets (replicate (8 * k) 0) = replicate (6 * k) 0"
    using octets_zero [of "2 * k"] by simp
  show ?thesis
    unfolding zeroPayload_def atob_def Let_def f s using l by (simp add: v those_replicate o)
qed

lemma decodePayload_zeroPayload:
  assumes "0 < k"
  shows "decodePayload (zeroPayload k) = Inr (silence (3 * k))"
proof -
  have d: "decode (zeroPayload k) = Inr (replicate (2 * (3 * k)) 0)"
    by (simp add: decode_def atob_zeroPayload)
  have m: "map (\<lambda>i. real_of_int (replicate (3 * k) 0 ! i) / 32768) [0..<3 * k] = replicate (3 * k) 0"
  proof -
    have "map (\<lambda>i. real_of_int (replicate (3 * k) 0 ! i) / 32768) [0..<3 * k]
        = map (\<lambda>i. 0) [0..<3 * k]"
      by (rule map_cong) simp_all
    then show ?thesis by (simp add: map_replicate_const)
  qed
  have "decodeAudioData (replicate (2 * (3 * k)) 0) 24000 1 = Inr (silence (3 * k))"
    unfolding decodeAudioData_def int16Array_zero Let_def silence_def
    using assms by (simp add: m)
  with d show ?thesis by (simp add: decodePayload_def)
qed

lemma zeroPayload_nonempty: "0 < k \<Longrightarrow> zeroPayload k \<noteq> []"
  by (simp add: zeroPayload_def)

lemma duration_silence: "duration (silence n) = real n / 24000"
  by (simp add: duration_def silence_def)

text \<open>A message that carries only audio that decodes schedules the decoded buffer.\<close>

lemma onmessage_decoded:
  "payload \<noteq> [] \<Longrightarrow> decodePayload payload = Inr buf \<Longrightarrow>
   onmessage now (audioMessage payload) s = Inr (scheduleBuffer now buf s)"
  by (simp add: onmessage_def audioMessage_def onTranscription_def onAudio_def)

lemma onmessage_audio:
  "0 < k \<Longrightarrow>
   onmessage now (audioMessage (zeroPayload k)) s = Inr (scheduleBuffer now (silence (3 * k)) s)"
  by (simp add: onmessage_decoded decodePayload_zeroPayload zeroPayload_nonempty)

text \<open>A transcription object without text makes the handler throw, whatever else it carries.\<close>

lemma onmessage_textless:
  "outputTranscription m = Some (Transcription None) \<Longrightarrow> onmessage now m s = Inl TypeError"
  by (simp add: onmessage_def onTranscription_def)

lemma step_textless:
  "outputTranscription m = Some (Transcription None) \<Longrightarrow> step (Message now m) s = s"
  by (simp add: onmessage_textless)

lemma onTranscription_hasText:
  assumes "hasText tr"
  shows "\<exists>ws. onTranscription tr s = Inr (s\<lparr> turnWords := turnWords s @ ws \<rparr>)"
proof (cases tr)
  case None
  then have "onTranscription tr s = Inr (s\<lparr> turnWords := turnWords s @ [] \<rparr>)"
    by (simp add: onTranscription_def)
  then show ?thesis by (rule exI)
next
  case (Some x)
  obtain o' where x: "x = Transcription o'" by (cases x)
  from assms Some x obtain raw where raw: "o' = Some raw"
    by (cases o') (simp_all add: hasText_def)
  show ?thesis
  proof (cases "trim raw = []")
    case True
    then have "onTranscription tr s = Inr (s\<lparr> turnWords := turnWords s @ [] \<rparr>)"
      by (simp add: onTranscription_def Some x raw)
    then show ?thesis by (rule exI)
  next
    case False
    then have "onTranscription tr s = Inr (s\<lparr> turnWords := turnWords s @ newWords (trim raw) \<rparr>)"
      by (simp add: onTranscription_def Some x raw)
    then show ?thesis by (rule exI)
  qed
qed

lemma onmessage_text:
  "onmessage now (textMessage t) s =
     Inr (if trim t \<noteq> [] then s\<lparr> turnWords := turnWords s @ newWords (trim t) \<rparr> else s)"
  by (simp add: onmessage_def textMessage_def onTranscription_def onAudio_def Let_def)

lemmas schedule_eval =
  scheduleBuffer_def startSource_def resynchronize_def needsResync_def initialEngine_def
  duration_silence Let_def emptyCaption_def

lemmas render_eval =
  render_def updateVolume_def captionTick_def showWord_def chunkIndexOf_def indexInChunkOf_def
  CHUNK_SIZE_def cancelClearTimer_def
  atTime_def currentVolume_def smoothVolume_def initialEngine_def emptyCaption_def Let_def

section \<open>Gapless scheduling\<close>

lemma resynchronize_frame:
  "sources (resynchronize now s) = sources s"
  "turnAudioDuration (resynchronize now s) = turnAudioDuration s"
  "nodeCounter (resynchronize now s) = nodeCounter s"
  by (simp_all add: resynchronize_def Let_def)

lemma resynchronize_idle: "\<not> needsResync now s \<Longrightarrow> resynchronize now s = s"
  by (simp add: resynchronize_def)

lemma startSource_fields:
  "nextStartTime (startSource buf s) = nextStartTime s + duration buf"
  "turnAudioDuration (startSource buf s) = turnAudioDuration s + duration buf"
  "turnStartTime (startSource buf s) = turnStartTime s"
  "sources (startSource buf s) =
     sources s @ [\<lparr> hid = nodeCounter s, startAt = nextStartTime s, bufferDuration = duration buf \<rparr>]"
  by (simp_all add: startSource_def Let_def)

lemma scheduleAll_chain:
  "noStarvation ds s \<Longrightarrow>
   \<exists>hs. sources (scheduleAll ds s) = sources s @ hs
      \<and> map bufferDuration hs = map (\<lambda>d. duration (snd d)) ds
      \<and> chained (nextStartTime s) hs
      \<and> turnAudioDuration (scheduleAll ds s)
          = turnAudioDuration s + sum_list (map (\<lambda>d. duration (snd d)) ds)"
proof (induction ds arbitrary: s)
  case Nil
  then show ?case by simp
next
  case (Cons d ds)
  obtain now buf where d: "d = (now, buf)" by (cases d)
  let ?s1 = "scheduleBuffer now buf s"
  from Cons.prems d have idle: "\<not> needsResync now s" and rest: "noStarvation ds ?s1"
    by simp_all
  have s1: "?s1 = startSource buf s"
    by (simp add: scheduleBuffer_def resynchronize_idle [OF idle])
  from Cons.IH [OF rest] obtain hs where
    hs: "sources (scheduleAll ds ?s1) = sources ?s1 @ hs"
        "map bufferDuration hs = map (\<lambda>d. duration (snd d)) ds"
        "chained (nextStartTime ?s1) hs"
        "turnAudioDuration (scheduleAll ds ?s1)
           = turnAudioDuration ?s1 + sum_list (map (\<lambda>d. duration (snd d)) ds)"
    by blast
  let ?h = "\<lparr> hid = nodeCounter s, startAt = nextStartTime s, bufferDuration = duration buf \<rparr>"
  have "sources (scheduleAll (d # ds) s) = sources s @ (?h # hs)"
    using hs(1) by (simp add: d s1 startSource_fields)
  moreover have "map bufferDuration (?h # hs) = map (\<lambda>d. duration (snd d)) (d # ds)"
    using hs(2) by (simp add: d)
  moreover have "chained (nextStartTime s) (?h # hs)"
    using hs(3) by (simp add: s1 startSource_fields)
  moreover have "turnAudioDuration (scheduleAll (d # ds) s)
      = turnAudioDuration s + sum_list (map (\<lambda>d. duration (snd d)) (d # ds))"
    using hs(4) by (simp add: d s1 startSource_fields)
  ultimately show ?case by blast
qed

lemma chained_nth:
  "chained t hs \<Longrightarrow> Suc i < length hs \<Longrightarrow>
   startAt (hs ! Suc i) = startAt (hs ! i) + bufferDuration (hs ! i)"
proof (induction hs arbitrary: t i)
  case Nil
  then show ?case by simp
next
  case (Cons h hs)
  show ?case
  proof (cases i)
    case 0
    with Cons.prems show ?thesis by (cases hs) auto
  next
    case (Suc j)
    with Cons.prems Cons.IH [of "t + bufferDuration h" j] show ?thesis by simp
  qed
qed

text \<open>
  Claim C1. Let a sequence of decoded audio deltas be handled one after the other, the
  first at time \<open>now\<close> with buffer \<open>buf\<close>, such that after the first none finds the
  guard of the resynchronization true. Then the handles added to the live set carry the
  durations of the buffers in order, every handle but the first starts exactly where the
  one before it ends, and the accumulated audio duration of the turn has grown by the sum
  of the durations.
\<close>

theorem gapless_scheduling:
  assumes "noStarvation rest (scheduleBuffer now buf s)"
  shows "let s' = scheduleAll ((now, buf) # rest) s;
             handles = drop (length (sources s)) (sources s')
         in map bufferDuration handles = map (\<lambda>d. duration (snd d)) ((now, buf) # rest)
          \<and> (\<forall>i. Suc i < length handles \<longrightarrow>
                startAt (handles ! Suc i) = startAt (handles ! i) + bufferDuration (handles ! i))
          \<and> turnAudioDuration s'
              = turnAudioDuration s + sum_list (map (\<lambda>d. duration (snd d)) ((now, buf) # rest))"
proof -
  let ?r = "resynchronize now s"
  let ?s1 = "scheduleBuffer now buf s"
  let ?h = "\<lparr> hid = nodeCounter ?r, startAt = nextStartTime ?r, bufferDuration = duration buf \<rparr>"
  from scheduleAll_chain [OF assms] obtain hs where
    hs: "sources (scheduleAll rest ?s1) = sources ?s1 @ hs"
        "map bufferDuration hs = map (\<lambda>d. duration (snd d)) rest"
        "chained (nextStartTime ?s1) hs"
        "turnAudioDuration (scheduleAll rest ?s1)
           = turnAudioDuration ?s1 + sum_list (map (\<lambda>d. duration (snd d)) rest)"
    by blast
  have src: "sources ?s1 = sources s @ [?h]"
    by (simp add: scheduleBuffer_def startSource_fields resynchronize_frame)
  have handles: "drop (length (sources s)) (sources (scheduleAll ((now, buf) # rest) s)) = ?h # hs"
    using hs(1) src by simp
  have ch: "chained (nextStartTime ?r) (?h # hs)"
    using hs(3) by (simp add: scheduleBuffer_def startSource_fields)
  have dur: "turnAudioDuration ?s1 = turnAudioDuration s + duration buf"
    by (simp add: scheduleBuffer_def startSource_fields resynchronize_frame)
  show ?thesis
    unfolding Let_def handles
    using hs(2) hs(4) dur chained_nth [OF ch] by simp
qed

theorem gapless_scheduling_witness:
  "noStarvation [(3 / 2, silence 12000), (19 / 10, silence 48000)]
     (scheduleBuffer 1 (silence 24000) initialEngine)
 \<and> map startAt (sources (scheduleAll
       [(1, silence 24000), (3 / 2, silence 12000), (19 / 10, silence 48000)] initialEngine))
     = [1, 2, 5 / 2]
 \<and> map bufferDuration (sources (scheduleAll
       [(1, silence 24000), (3 / 2, silence 12000), (19 / 10, silence 48000)] initialEngine))
     = [1, 1 / 2, 2]
 \<and> turnAudioDuration (scheduleAll
       [(1, silence 24000), (3 / 2, silence 12000), (19 / 10, silence 48000)] initialEngine)
     = 7 / 2"
proof -
  have h: "noStarvation [(3 / 2, silence 12000), (19 / 10, silence 48000)]
             (scheduleBuffer 1 (silence 24000) initialEngine)"
    by (simp add: schedule_eval)
  from gapless_scheduling [OF h] show ?thesis
    by (simp add: schedule_eval)
qed

section \<open>Resynchronization\<close>

text \<open>
  Claim C2. When a delta that is not the first buffer of its turn (accumulated duration
  above zero) is handled at a time \<open>now\<close> that lies after \<open>nextStartTime\<close>, the turn's start
  time grows by exactly the gap \<open>now - nextStartTime\<close>, \<open>nextStartTime\<close> is \<open>now\<close> before
  the buffer is scheduled, and the buffer starts at \<open>now\<close>. When the first buffer of a turn
  (accumulated duration zero) is handled and the guard of the resynchronization holds
  (no schedule time yet, as in the initial state and after an interruption, or one that
  has passed), the start time of the turn and \<open>nextStartTime\<close> are both \<open>now\<close>, and the
  buffer starts at \<open>now\<close>.
\<close>

theorem starvation_resynchronization:
  "(0 < turnAudioDuration s \<and> nextStartTime s < now \<longrightarrow>
      turnStartTime (resynchronize now s) = turnStartTime s + (now - nextStartTime s)
    \<and> nextStartTime (resynchronize now s) = now
    \<and> turnStartTime (scheduleBuffer now buf s) = turnStartTime s + (now - nextStartTime s)
    \<and> startAt (last (sources (scheduleBuffer now buf s))) = now)
 \<and> (turnAudioDuration s = 0 \<and> needsResync now s \<longrightarrow>
      turnStartTime (resynchronize now s) = now
    \<and> nextStartTime (resynchronize now s) = now
    \<and> turnStartTime (scheduleBuffer now buf s) = now
    \<and> startAt (last (sources (scheduleBuffer now buf s))) = now)"
  by (simp add: resynchronize_def needsResync_def scheduleBuffer_def startSource_fields Let_def)

theorem starvation_resynchronization_witness:
  "0 < turnAudioDuration (scheduleBuffer 1 (silence 48000) initialEngine)
 \<and> nextStartTime (scheduleBuffer 1 (silence 48000) initialEngine) < 9 / 2
 \<and> turnStartTime (resynchronize (9 / 2) (scheduleBuffer 1 (silence 48000) initialEngine)) = 5 / 2
 \<and> nextStartTime (resynchronize (9 / 2) (scheduleBuffer 1 (silence 48000) initialEngine)) = 9 / 2
 \<and> startAt (last (sources (scheduleBuffer (9 / 2) (silence 24000)
        (scheduleBuffer 1 (silence 48000) initialEngine)))) = 9 / 2
 \<and> turnAudioDuration initialEngine = 0 \<and> needsResync 7 initialEngine
 \<and> turnStartTime (resynchronize 7 initialEngine) = 7
 \<and> nextStartTime (resynchronize 7 initialEngine) = 7
 \<and> startAt (last (sources (scheduleBuffer 7 (silence 24000) initialEngine))) = 7"
  using starvation_resynchronization
          [of "scheduleBuffer 1 (silence 48000) initialEngine" "9 / 2" "silence 24000"]
        starvation_resynchronization [of initialEngine 7 "silence 24000"]
  by (simp add: schedule_eval)

section \<open>Interruption\<close>

lemma stopAll_eq:
  "stopAll xs s = s\<lparr> stopped := stopped s @ map hid xs,
                        sources := filter (\<lambda>h. h \<notin> set xs) (sources s) \<rparr>"
proof (induction xs arbitrary: s)
  case Nil
  show ?case by simp
next
  case (Cons x xs)
  have "filter (\<lambda>h. h \<notin> set xs) (removeAll x ys)
      = filter (\<lambda>h. h \<notin> set (x # xs)) ys" for ys
    by (induction ys) auto
  then show ?case
    by (simp add: Cons [of "s\<lparr> stopped := stopped s @ [hid x], sources := removeAll x (sources s) \<rparr>"])
qed

lemma onInterrupted_eq:
  "onInterrupted s =
     s\<lparr> turnWords := [], turnStartTime := 0, turnAudioDuration := 0, nextStartTime := 0,
        previousStateKey := [], kineticText := emptyCaption, sources := [],
        stopped := stopped s @ map hid (sources s) \<rparr>"
  by (simp add: onInterrupted_def Let_def stopAll_eq)





section \<open>Malformed deltas\<close>

lemma onInterrupted_console: "onInterrupted (s\<lparr> console := c \<rparr>) = (onInterrupted s)\<lparr> console := c \<rparr>"
  by (simp add: onInterrupted_eq)

lemma scheduleBuffer_console:
  "scheduleBuffer now buf (s\<lparr> console := c \<rparr>) = (scheduleBuffer now buf s)\<lparr> console := c \<rparr>"
  by (simp add: scheduleBuffer_def startSource_def resynchronize_def needsResync_def Let_def)

lemma onAudio_muted:
  "(onAudio now p (s\<lparr> console := c \<rparr>))\<lparr> console := [] \<rparr> = (onAudio now p s)\<lparr> console := [] \<rparr>"
  by (simp add: onAudio_def scheduleBuffer_console split: option.splits sum.splits)

lemma onTranscription_console:
  "onTranscription tr (s\<lparr> console := c \<rparr>)
     = (case onTranscription tr s of Inl e \<Rightarrow> Inl e | Inr s1 \<Rightarrow> Inr (s1\<lparr> console := c \<rparr>))"
  by (simp add: onTranscription_def Let_def split: option.splits transcription.splits)

text \<open>The log is never read: a handler does the same on two states that differ in it.\<close>

lemma step_muted:
  "(step (Message now m) (s\<lparr> console := c \<rparr>))\<lparr> console := [] \<rparr>
     = (step (Message now m) s)\<lparr> console := [] \<rparr>"
proof (cases "onTranscription (outputTranscription m) s")
  case (Inl e)
  then show ?thesis by (simp add: onmessage_def onTranscription_console)
next
  case (Inr s1)
  let ?a = "onAudio now (inlineData m) (s1\<lparr> console := c \<rparr>)"
  let ?b = "onAudio now (inlineData m) s1"
  have ab: "?a\<lparr> console := [] \<rparr> = ?b\<lparr> console := [] \<rparr>"
    by (rule onAudio_muted)
  have "(onInterrupted ?a)\<lparr> console := [] \<rparr> = onInterrupted (?a\<lparr> console := [] \<rparr>)"
    by (simp add: onInterrupted_console)
  also have "\<dots> = onInterrupted (?b\<lparr> console := [] \<rparr>)" by (simp only: ab)
  also have "\<dots> = (onInterrupted ?b)\<lparr> console := [] \<rparr>"
    by (simp add: onInterrupted_console)
  finally show ?thesis
    using ab Inr by (simp add: onmessage_def onTranscription_console Let_def)
qed

text \<open>
  Claim C9. Let a message carry a non-empty audio payload that fails to decode (in
  \<^verbatim>\<open>atob\<close>, in the 16-bit view or in \<^verbatim>\<open>createBuffer\<close>), and let its transcription
  object, if it has one, have a text (without a text the handler throws before the
  \<^verbatim>\<open>try\<close> block, see \<open>onmessage_textless\<close>). Then the handler returns; the message is
  handled as the same message without audio, except that the error is logged; if the
  message is not an interruption, the start time of the turn, \<open>nextStartTime\<close>, the
  accumulated duration and the live set are what they were; and any later message is
  handled as it would be had the failed delta never arrived (the states agree but for the
  log).
\<close>

theorem malformed_delta_skipped:
  assumes "inlineData m = Some payload" and "payload \<noteq> []"
      and "decodePayload payload = Inl e"
      and "hasText (outputTranscription m)"
  shows "\<exists>s0 s'. onmessage now (m\<lparr> inlineData := None \<rparr>) s = Inr s0
          \<and> onmessage now m s = Inr s'
          \<and> s' = s0\<lparr> console := console s @ [e] \<rparr>
          \<and> (\<not> interrupted m \<longrightarrow>
                turnStartTime s' = turnStartTime s
              \<and> nextStartTime s' = nextStartTime s
              \<and> turnAudioDuration s' = turnAudioDuration s
              \<and> sources s' = sources s)
          \<and> (step (Message now' m') s')\<lparr> console := [] \<rparr>
              = (step (Message now' m') s0)\<lparr> console := [] \<rparr>"
proof -
  from onTranscription_hasText [OF assms(4), of s] obtain ws where
    tr: "onTranscription (outputTranscription m) s = Inr (s\<lparr> turnWords := turnWords s @ ws \<rparr>)"
    by blast
  let ?s1 = "s\<lparr> turnWords := turnWords s @ ws \<rparr>"
  let ?s0 = "if interrupted m then onInterrupted ?s1 else ?s1"
  let ?s' = "?s0\<lparr> console := console s @ [e] \<rparr>"
  have a: "onAudio now (inlineData m) ?s1 = ?s1\<lparr> console := console s @ [e] \<rparr>"
    using assms(1-3) by (simp add: onAudio_def)
  have without: "onmessage now (m\<lparr> inlineData := None \<rparr>) s = Inr ?s0"
    by (simp add: onmessage_def tr onAudio_def)
  have "with": "onmessage now m s = Inr ?s'"
    by (simp add: onmessage_def tr a onInterrupted_console)
  have frame: "\<not> interrupted m \<Longrightarrow>
      turnStartTime ?s' = turnStartTime s \<and> nextStartTime ?s' = nextStartTime s
    \<and> turnAudioDuration ?s' = turnAudioDuration s \<and> sources ?s' = sources s"
    by simp
  have later: "(step (Message now' m') ?s')\<lparr> console := [] \<rparr>
      = (step (Message now' m') ?s0)\<lparr> console := [] \<rparr>"
    by (rule step_muted)
  from without "with" frame later show ?thesis by blast
qed

lemma bad1: "decodePayload ''AAAA'' = Inl RangeError"
  by (simp add: decodePayload_def decode_def atob_def stripPadding_def asciiWhitespace_def
      b64val_def b64alphabet_def decodeAudioData_def)

lemma bad2: "decodePayload ''!!!!'' = Inl InvalidCharacterError"
  by (simp add: decodePayload_def decode_def atob_def stripPadding_def asciiWhitespace_def
      b64val_def b64alphabet_def decodeAudioData_def)

theorem malformed_delta_skipped_witness:
  "inlineData (audioMessage ''AAAA'') = Some ''AAAA'' \<and> ''AAAA'' \<noteq> []
 \<and> decodePayload ''AAAA'' = Inl RangeError
 \<and> hasText (outputTranscription (audioMessage ''AAAA''))
 \<and> \<not> interrupted (audioMessage ''AAAA'')
 \<and> onmessage 2 (audioMessage ''AAAA'') (scheduleBuffer 1 (silence 48000) initialEngine)
     = Inr ((scheduleBuffer 1 (silence 48000) initialEngine)\<lparr> console := [RangeError] \<rparr>)
 \<and> nextStartTime (step (Message 2 (audioMessage ''AAAA''))
       (scheduleBuffer 1 (silence 48000) initialEngine)) = 3
 \<and> (step (Message (5 / 2) (audioMessage (zeroPayload 8000)))
       (step (Message 2 (audioMessage ''AAAA''))
          (scheduleBuffer 1 (silence 48000) initialEngine)))\<lparr> console := [] \<rparr>
     = scheduleBuffer (5 / 2) (silence 24000) (scheduleBuffer 1 (silence 48000) initialEngine)"
proof -
  let ?s = "scheduleBuffer 1 (silence 48000) initialEngine"
  let ?m = "audioMessage ''AAAA''"
  let ?m' = "audioMessage (zeroPayload 8000)"
  have h: "inlineData ?m = Some ''AAAA''" "''AAAA'' \<noteq> []" "decodePayload ''AAAA'' = Inl RangeError"
    "hasText (outputTranscription ?m)"
    by (simp_all add: audioMessage_def bad1 hasText_def)
  have i: "\<not> interrupted ?m" by (simp add: audioMessage_def)
  have n: "onmessage 2 (?m\<lparr> inlineData := None \<rparr>) ?s = Inr ?s"
    by (simp add: onmessage_def audioMessage_def onTranscription_def onAudio_def)
  from malformed_delta_skipped [OF h, of 2 ?s "5 / 2" ?m'] obtain s0 s' where
    g: "onmessage 2 (?m\<lparr> inlineData := None \<rparr>) ?s = Inr s0"
       "onmessage 2 ?m ?s = Inr s'"
       "s' = s0\<lparr> console := console ?s @ [RangeError] \<rparr>"
       "\<not> interrupted ?m \<longrightarrow> nextStartTime s' = nextStartTime ?s"
       "(step (Message (5 / 2) ?m') s')\<lparr> console := [] \<rparr>
          = (step (Message (5 / 2) ?m') s0)\<lparr> console := [] \<rparr>"
    by blast
  from g(1) n have s0: "s0 = ?s" by simp
  have e: "console ?s = []" "nextStartTime ?s = 3"
    by (simp_all add: schedule_eval)
  have s'eq: "s' = ?s\<lparr> console := [RangeError] \<rparr>"
    using g(3) by (simp only: s0 e append_Nil)
  have st: "step (Message 2 ?m) ?s = s'"
    using g(2) by simp
  have nx: "nextStartTime s' = 3"
    using g(4) i by (simp only: e) simp
  have e2: "(step (Message (5 / 2) ?m') ?s)\<lparr> console := [] \<rparr>
      = scheduleBuffer (5 / 2) (silence 24000) ?s"
    by (simp add: onmessage_audio schedule_eval)
  have later: "(step (Message (5 / 2) ?m') s')\<lparr> console := [] \<rparr>
      = scheduleBuffer (5 / 2) (silence 24000) ?s"
    using g(5) by (simp only: s0 e2)
  have w: "onmessage 2 ?m ?s = Inr (?s\<lparr> console := [RangeError] \<rparr>)"
    using g(2) by (simp only: s'eq)
  from h i w nx later show ?thesis unfolding st by blast
qed

section \<open>Caption pacing\<close>

text \<open>
  Claim C5. For every word count and every accumulated audio duration (zero and negative
  ones included) the pacing rate lies between 2 and 6 words per second.
\<close>

theorem wordsPerSecond_clamped: "2 \<le> smoothedWps wordCount audioDuration \<and> smoothedWps wordCount audioDuration \<le> 6"
  by (simp add: smoothedWps_def Let_def)

lemma clampElapsed_mono:
  "e1 \<le> e2 \<Longrightarrow> d1 \<le> d2 \<Longrightarrow> clampElapsed e1 d1 \<le> clampElapsed e2 d2"
  by (simp add: clampElapsed_def)

lemma clampElapsed_nonneg: "0 \<le> clampElapsed e d"
  by (simp add: clampElapsed_def)

lemma smoothedWps_pos: "0 < smoothedWps n d"
  by (simp add: smoothedWps_def Let_def)

lemma twelve_words:
  "trim ''a b c d e f g h i j k l'' = ''a b c d e f g h i j k l''"
  "newWords ''a b c d e f g h i j k l''
     = [''a'', ''b'', ''c'', ''d'', ''e'', ''f'', ''g'', ''h'', ''i'', ''j'', ''k'', ''l'']"
  by code_simp+

lemma stateKey_eval:
  "stateKeyOf 0 2 = ''0-2''" "stateKeyOf 2 1 = ''2-1''" "stateKeyOf 0 4 = ''0-4''"
  by (simp_all add: stateKeyOf_def showNat.simps)

lemma pacingTick1_eq:
  "pacingTick1 =
     initialEngine\<lparr> turnWords := [''a'', ''b'', ''c'', ''d'', ''e'', ''f'', ''g'', ''h'', ''i'', ''j'', ''k'', ''l''],
       turnStartTime := 1, turnAudioDuration := 2, nextStartTime := 3,
       previousStateKey := ''2-1'',
       kineticText := \<lparr> captionWords = [''k'', ''l''], activeIndex = 1 \<rparr>,
       sources := [\<lparr> hid = 0, startAt = 1, bufferDuration = 2 \<rparr>],
       aiWasPlaying := True, status := ''AI is speaking...'', nodeCounter := 1 \<rparr>"
proof -
  have n: "length [''a'', ''b'', ''c'', ''d'', ''e'', ''f'', ''g'', ''h'', ''i'', ''j'', ''k'', ''l''] = 12"
    by simp
  have k: "stateKeyOf 2 (Suc 0) = ''2-1''"
    by (simp add: stateKeyOf_def showNat.simps)
  have i: "activeWordAbsolute 12 2 (19 / 10) = 11"
    by (simp add: activeWordAbsolute_def smoothedWps_def clampElapsed_def)
  show ?thesis
    unfolding pacingTick1_def run_def
    by (simp add: onmessage_text twelve_words onmessage_audio schedule_eval)
      (simp add: render_eval n i k stateKey_eval del: length_Cons list.size)
qed

lemma pacingTick2_eq:
  "pacingTick2 =
     pacingTick1\<lparr> turnAudioDuration := 12, nextStartTime := 13,
       previousStateKey := ''0-4'',
       kineticText := \<lparr> captionWords = [''a'', ''b'', ''c'', ''d'', ''e''], activeIndex = 4 \<rparr>,
       sources := [\<lparr> hid = 0, startAt = 1, bufferDuration = 2 \<rparr>,
                   \<lparr> hid = 1, startAt = 3, bufferDuration = 10 \<rparr>],
       nodeCounter := 2 \<rparr>"
proof -
  have n: "length [''a'', ''b'', ''c'', ''d'', ''e'', ''f'', ''g'', ''h'', ''i'', ''j'', ''k'', ''l''] = 12"
    by simp
  have i: "activeWordAbsolute 12 12 2 = 4"
    by (simp add: activeWordAbsolute_def smoothedWps_def clampElapsed_def)
  show ?thesis
    unfolding pacingTick2_def run_def pacingTick1_eq
    by (simp add: onmessage_audio schedule_eval)
      (simp add: render_eval n i stateKey_eval del: length_Cons list.size)
qed

text \<open>
  Claim C4 does not hold as stated: the index can decrease within one uninterrupted turn
  while the elapsed time increases. Twelve words and two seconds of audio that start at
  time 1 pace at 6 words per second, so a frame at 2.9 computes index 11 (word 2 of chunk
  2). Ten more seconds of audio arrive at 2.95, without starvation; the rate for twelve
  words over twelve seconds is clamped to 2, and the frame at 3.0 computes index 4.
\<close>

theorem activeWordIndex_decreases:
  "turnWords pacingTick2 = turnWords pacingTick1
 \<and> turnStartTime pacingTick2 = turnStartTime pacingTick1
 \<and> 29 / 10 - turnStartTime pacingTick1 < 3 - turnStartTime pacingTick2
 \<and> activeWordAbsolute (length (turnWords pacingTick1)) (turnAudioDuration pacingTick1)
       (29 / 10 - turnStartTime pacingTick1) = 11
 \<and> activeWordAbsolute (length (turnWords pacingTick2)) (turnAudioDuration pacingTick2)
       (3 - turnStartTime pacingTick2) = 4
 \<and> kineticText pacingTick1 = \<lparr> captionWords = [''k'', ''l''], activeIndex = 1 \<rparr>
 \<and> kineticText pacingTick2
       = \<lparr> captionWords = [''a'', ''b'', ''c'', ''d'', ''e''], activeIndex = 4 \<rparr>"
  unfolding pacingTick2_eq unfolding pacingTick1_eq
  by (simp add: initialEngine_def activeWordAbsolute_def smoothedWps_def clampElapsed_def)

text \<open>
  Claim C4, amended. With at least one word the computed index lies between 0 and the
  word count minus one. Between two frames the index does not decrease when the elapsed
  time does not decrease and, in between, the word count, the accumulated duration and
  the pacing rate have not decreased; in particular when no delta was handled in between.
\<close>

theorem activeWordIndex_range_monotone:
  "(0 < wordCount \<longrightarrow>
      0 \<le> activeWordAbsolute wordCount audioDuration elapsed
    \<and> activeWordAbsolute wordCount audioDuration elapsed \<le> int wordCount - 1)
 \<and> (elapsed \<le> elapsed' \<and> wordCount \<le> wordCount' \<and> audioDuration \<le> audioDuration'
      \<and> smoothedWps wordCount audioDuration \<le> smoothedWps wordCount' audioDuration' \<longrightarrow>
      activeWordAbsolute wordCount audioDuration elapsed
        \<le> activeWordAbsolute wordCount' audioDuration' elapsed')"
proof -
  have range: "0 \<le> activeWordAbsolute wordCount audioDuration elapsed
      \<and> activeWordAbsolute wordCount audioDuration elapsed \<le> int wordCount - 1"
    if "0 < wordCount"
  proof -
    have "0 \<le> clampElapsed elapsed audioDuration * smoothedWps wordCount audioDuration"
      using clampElapsed_nonneg [of elapsed audioDuration]
        smoothedWps_pos [of wordCount audioDuration] by simp
    then have "0 \<le> \<lfloor>clampElapsed elapsed audioDuration * smoothedWps wordCount audioDuration\<rfloor>"
      by simp
    with that show ?thesis by (simp add: activeWordAbsolute_def)
  qed
  have mono: "activeWordAbsolute wordCount audioDuration elapsed
      \<le> activeWordAbsolute wordCount' audioDuration' elapsed'"
    if "elapsed \<le> elapsed'" "wordCount \<le> wordCount'" "audioDuration \<le> audioDuration'"
      "smoothedWps wordCount audioDuration \<le> smoothedWps wordCount' audioDuration'"
  proof -
    have "clampElapsed elapsed audioDuration * smoothedWps wordCount audioDuration
        \<le> clampElapsed elapsed' audioDuration' * smoothedWps wordCount' audioDuration'"
      using clampElapsed_mono [OF that(1,3)] that(4)
        clampElapsed_nonneg [of elapsed audioDuration]
        smoothedWps_pos [of wordCount audioDuration]
      by (intro mult_mono) simp_all
    then have "\<lfloor>clampElapsed elapsed audioDuration * smoothedWps wordCount audioDuration\<rfloor>
        \<le> \<lfloor>clampElapsed elapsed' audioDuration' * smoothedWps wordCount' audioDuration'\<rfloor>"
      by (rule floor_mono)
    with that(2) show ?thesis unfolding activeWordAbsolute_def by linarith
  qed
  from range mono show ?thesis by blast
qed

theorem activeWordIndex_range_monotone_witness:
  "(0::nat) < 6 \<and> 0 \<le> activeWordAbsolute 6 3 1 \<and> activeWordAbsolute 6 3 1 \<le> int 6 - 1
 \<and> (1::real) \<le> 2 \<and> smoothedWps 6 3 \<le> smoothedWps 6 3
 \<and> activeWordAbsolute 6 3 1 \<le> activeWordAbsolute 6 3 2"
  using activeWordIndex_range_monotone [of 6 3 1 2 6 3] by simp

lemma scenario_words:
  "trim ''hello'' = ''hello''" "newWords ''hello'' = [''hello'']"
  "trim ''world this'' = ''world this''" "newWords ''world this'' = [''world'', ''this'']"
  "trim ''is a test'' = ''is a test''" "newWords ''is a test'' = [''is'', ''a'', ''test'']"
  by code_simp+

lemma captionScenario_eq:
  "captionScenario =
     initialEngine\<lparr> turnWords := [''hello'', ''world'', ''this'', ''is'', ''a'', ''test''],
       turnStartTime := 10, turnAudioDuration := 3, nextStartTime := 13,
       sources := [\<lparr> hid = 0, startAt = 10, bufferDuration = 3 \<rparr>], nodeCounter := 1 \<rparr>"
  by (simp add: captionScenario_def run_def onmessage_text scenario_words onmessage_audio
      schedule_eval)

lemma scenario_index: "activeWordAbsolute 6 3 1 = 2"
  by (simp add: activeWordAbsolute_def smoothedWps_def clampElapsed_def)

text \<open>
  Claim C6. After the transcript fragments \<^verbatim>\<open>hello\<close>, \<^verbatim>\<open>world this\<close>, \<^verbatim>\<open>is a test\<close> and one
  audio delta of three seconds (72000 frames of silence), the turn has the six words in
  order and three seconds of audio, the pacing rate is 2, and a frame one second after the
  start of the turn computes the word index 2, which is index 2 of chunk 0: the caption is
  the first five words with index 2 active.
\<close>

theorem caption_scenario:
  "turnWords captionScenario = [''hello'', ''world'', ''this'', ''is'', ''a'', ''test'']
 \<and> turnAudioDuration captionScenario = 3
 \<and> smoothedWps (length (turnWords captionScenario)) (turnAudioDuration captionScenario) = 2
 \<and> activeWordAbsolute (length (turnWords captionScenario)) (turnAudioDuration captionScenario)
       ((turnStartTime captionScenario + 1) - turnStartTime captionScenario) = 2
 \<and> chunkIndexOf 2 = 0 \<and> indexInChunkOf 2 = 2
 \<and> previousStateKey (render (atTime (turnStartTime captionScenario + 1)) captionScenario)
       = stateKeyOf 0 2
 \<and> kineticText (render (atTime (turnStartTime captionScenario + 1)) captionScenario)
       = \<lparr> captionWords = [''hello'', ''world'', ''this'', ''is'', ''a''], activeIndex = 2 \<rparr>"
proof -
  have six: "length [''hello'', ''world'', ''this'', ''is'', ''a'', ''test''] = 6" by simp
  show ?thesis
    unfolding captionScenario_eq
    by (simp add: render_eval six scenario_index stateKey_eval del: length_Cons list.size)
      (simp add: smoothedWps_def)
qed

section \<open>The grace period\<close>

















section \<open>Volume\<close>

lemma foldl_sum_replicate:
  "foldl (\<lambda>acc b. acc + unsigned b) (a::real) (replicate n (x::byte)) = a + real n * unsigned x"
  by (induction n arbitrary: a) (simp_all add: algebra_simps)

lemma currentVolume_loud: "currentVolume (Some (replicate 256 60)) = 1"
  by (simp add: currentVolume_def foldl_sum_replicate noiseGate_def maxVol_def Let_def)

text \<open>
  Claim C8 and the code: the target volume is clamped to the unit interval and the frame
  time is capped at 0.1 seconds, but the attack rate of 16 makes the interpolation factor
  1.6 at that cap, so the smoothed volume overshoots its target. From volume 0, a frame
  of 0.1 seconds or more with a spectrum of mean 60 (target 1) gives volume 1.6.
\<close>

theorem volume_overshoot:
  "uVolume initialEngine = 0
 \<and> currentVolume (spectrum loudFrame) = 1
 \<and> uVolume (render loudFrame initialEngine) = 8 / 5
 \<and> 1 < uVolume (render loudFrame initialEngine)"
proof -
  have "uVolume (render loudFrame initialEngine) = 8 / 5"
    by (simp add: render_def updateVolume_def loudFrame_def currentVolume_loud smoothVolume_def
        cancelClearTimer_def captionTick_def initialEngine_def Let_def)
  then show ?thesis
    by (simp add: loudFrame_def currentVolume_loud) (simp add: initialEngine_def)
qed

lemma currentVolume_unit: "0 \<le> currentVolume d \<and> currentVolume d \<le> 1"
  by (simp add: currentVolume_def Let_def split: option.splits)

lemma render_uVolume:
  "uVolume (render f s) = smoothVolume (uVolume s) (currentVolume (spectrum f)) (min (clockDelta f) (1 / 10))"
  by (simp add: render_def updateVolume_def captionTick_def showWord_def cancelClearTimer_def
      clearTimeout_def scheduleClearTimer_def Let_def split: option.splits)

lemma smoothVolume_short:
  assumes "0 \<le> v" "v \<le> 1" "0 \<le> c" "c \<le> 1" "0 \<le> d" "d \<le> 1 / 16"
  shows "0 \<le> smoothVolume v c d \<and> smoothVolume v c d \<le> 1"
proof (cases "v < c")
  case True
  have "0 \<le> 16 * d" "16 * d \<le> 1" using assms by simp_all
  then have "0 \<le> (c - v) * (16 * d)" "(c - v) * (16 * d) \<le> c - v"
    using True by (simp_all add: mult_left_le)
  moreover have "smoothVolume v c d = v + (c - v) * (16 * d)"
    using True by (simp add: smoothVolume_def)
  ultimately show ?thesis using assms by linarith
next
  case False
  have "0 \<le> 4 * d" "4 * d \<le> 1" using assms by simp_all
  then have "0 \<le> (v - c) * (4 * d)" "(v - c) * (4 * d) \<le> v - c"
    using False by (simp_all add: mult_left_le)
  moreover have "smoothVolume v c d = v - (v - c) * (4 * d)"
    using False by (simp add: smoothVolume_def algebra_simps)
  ultimately show ?thesis using assms by linarith
qed

lemma volume_unit_interval_short_frames:
  assumes "0 \<le> uVolume s" "uVolume s \<le> 1" "0 \<le> clockDelta f" "clockDelta f \<le> 1 / 16"
  shows "0 \<le> uVolume (render f s) \<and> uVolume (render f s) \<le> 1"
proof -
  have "min (clockDelta f) (1 / 10) = clockDelta f" using assms by simp
  then show ?thesis
    using smoothVolume_short [OF assms(1,2) conjunct1 [OF currentVolume_unit]
        conjunct2 [OF currentVolume_unit] assms(3,4), of "spectrum f"]
    by (simp add: render_uVolume)
qed

end
